theory Spec2Isabelle
  imports Main "HOL-Library.Word"
begin

section \<open>The topology plugin: data model\<close>

text \<open>
  A shallow embedding of \<^verbatim>\<open>plugins/topology_plugin/topology_plugin.cpp\<close>.
  Identifiers are 64-bit words (\<^verbatim>\<open>make_node_id\<close> returns the first
  \<^verbatim>\<open>uint64_t\<close> of a digest, \<^verbatim>\<open>std::hash\<close> returns a \<^verbatim>\<open>size_t\<close>),
  account names are the 64-bit value of a \<^verbatim>\<open>chain::name\<close>.
\<close>

type_synonym node_id = "64 word"
type_synonym link_id = "64 word"
type_synonym account_name = "64 word"
type_synonym block_id_type = "256 word"
type_synonym sha256 = "64 word \<times> 64 word \<times> 64 word \<times> 64 word"

datatype link_role = blocks | transactions | control | combined

datatype node_role = producer | backup | api | full | gateway | special

text \<open>
  Modelled from the spec: \<^verbatim>\<open>node_descriptor\<close> and \<^verbatim>\<open>link_descriptor\<close> are declared in
  headers that are not part of the sources at hand. The fields are the ones this file reads and
  writes (a node's identity, location, role, status, version and hosted producers; a link's
  identity, its active and passive endpoint, its role and its hop count; \<^verbatim>\<open>passive\<close> is a
  keyword of Isabelle, so the fields of the link descriptor carry the suffix \<open>_ld\<close>). The status is kept as
  the number of its enumerator.
\<close>

record node_descriptor =
  my_id :: node_id
  location :: string
  role :: node_role
  status :: nat
  version :: string
  producers_nd :: "account_name list"

record link_descriptor =
  my_id_ld :: link_id
  active_ld :: node_id
  passive_ld :: node_id
  role_ld :: link_role
  hops :: nat

text \<open>
  \<^verbatim>\<open>struct topo_link\<close>. The metrics bundle \<^verbatim>\<open>link_metrics\<close> is a type of an absent header
  and stays a type parameter \<open>'m\<close>.
\<close>

record 'm topo_link =
  info_l :: link_descriptor
  up :: 'm
  down :: 'm
  closures :: "32 word"

text \<open>\<^verbatim>\<open>struct route_descriptor\<close>: a signed 16-bit hop count and the link of the first hop.\<close>

record route_descriptor =
  length_r :: "16 word"
  path :: link_id

definition route_descriptor_init :: route_descriptor where
  "route_descriptor_init = \<lparr>length_r = - 1, path = 0\<rparr>"

text \<open>
  \<^verbatim>\<open>struct topo_node\<close>. The set of link ids is an ordered \<^verbatim>\<open>std::set\<close>; the route cache is
  a map from the destination. The member \<^verbatim>\<open>last_block_produced\<close> is left out: no constructor
  initialises it and nothing in the file reads or writes it.
\<close>

record 'm topo_node =
  info :: node_descriptor
  links_n :: "link_id set"
  routes :: "node_id \<rightharpoonup> route_descriptor"
  forks_n :: 'm
  dot :: string

record fork_descriptor =
  from_link :: link_id
  fork_base :: block_id_type
  depth :: "16 word"
  deficit :: "16 word"
  overage :: "16 word"

record topo_producer =
  id_p :: account_name
  current :: fork_descriptor
  forks :: "fork_descriptor list"

text \<open>
  What the file takes from headers and libraries outside the sources at hand: the two hash
  functions, the stream output of the values that \<^verbatim>\<open>gen_id\<close> concatenates, the
  default-constructed descriptors and metrics bundle, and \<^verbatim>\<open>link_metrics::sample\<close>, which
  folds one direction of a sample (of a type \<open>'s\<close>) into a metrics bundle.
\<close>

record ('m, 's) platform =
  sha256_hash :: "string \<Rightarrow> sha256"
  string_hash :: "string \<Rightarrow> link_id"
  node_role_out :: "node_role \<Rightarrow> string"
  node_id_out :: "node_id \<Rightarrow> string"
  name_out :: "account_name \<Rightarrow> string"
  node_descriptor_init :: node_descriptor
  link_descriptor_init :: link_descriptor
  link_metrics_init :: 'm
  metrics_sample :: "'s \<Rightarrow> 'm \<Rightarrow> 'm"

text \<open>
  \<^verbatim>\<open>class topology_plugin_impl\<close>: the node table, the link table, the producer table and the
  counters of the deviation detector. Members that only the plugin lifecycle and the reports
  use (\<^verbatim>\<open>units\<close>, \<^verbatim>\<open>bp_name\<close>, \<^verbatim>\<open>done\<close>, the plugin pointers, the mutex) are left out.
\<close>

record 'm topology_plugin_impl =
  nodes :: "node_id \<rightharpoonup> 'm topo_node"
  links :: "link_id \<rightharpoonup> 'm topo_link"
  producers :: "account_name \<rightharpoonup> topo_producer"
  sample_interval_sec :: "16 word"
  max_hops :: "16 word"
  max_produced :: "16 word"
  block_count :: "16 word"
  prev_producer :: account_name
  local_node_id :: node_id
  local_producers :: "account_name set"

section \<open>Constructors and \<^verbatim>\<open>operator[]\<close>\<close>

text \<open>\<^verbatim>\<open>topo_link()\<close> and \<^verbatim>\<open>topo_link(link_descriptor&&)\<close>.\<close>

definition topo_link_init :: "('m, 's) platform \<Rightarrow> 'm topo_link" where
  "topo_link_init P =
     \<lparr>info_l = link_descriptor_init P, up = link_metrics_init P, down = link_metrics_init P,
      closures = 0\<rparr>"

definition topo_link_of :: "('m, 's) platform \<Rightarrow> link_descriptor \<Rightarrow> 'm topo_link" where
  "topo_link_of P ld =
     \<lparr>info_l = ld, up = link_metrics_init P, down = link_metrics_init P, closures = 0\<rparr>"

text \<open>\<^verbatim>\<open>topo_node()\<close> and \<^verbatim>\<open>topo_node(node_descriptor&)\<close>.\<close>

definition topo_node_init :: "('m, 's) platform \<Rightarrow> 'm topo_node" where
  "topo_node_init P =
     \<lparr>info = node_descriptor_init P, links_n = {}, routes = Map.empty,
      forks_n = link_metrics_init P, dot = []\<rparr>"

definition topo_node_of :: "('m, 's) platform \<Rightarrow> node_descriptor \<Rightarrow> 'm topo_node" where
  "topo_node_of P nd =
     \<lparr>info = nd, links_n = {}, routes = Map.empty, forks_n = link_metrics_init P, dot = []\<rparr>"

text \<open>
  \<^verbatim>\<open>flat_map::operator[]\<close> inserts a default-constructed value under a key that is absent
  and then yields the stored value. \<open>links_at\<close> and \<open>nodes_at\<close> are the table after that
  insertion; \<open>the_link\<close> and \<open>the_node\<close> read the value it yields.
\<close>

definition links_at :: "('m, 's) platform \<Rightarrow> link_id \<Rightarrow> 'm topology_plugin_impl \<Rightarrow> 'm topology_plugin_impl" where
  "links_at P lid s =
     (case links s lid of
        None \<Rightarrow> s\<lparr>links := (links s)(lid \<mapsto> topo_link_init P)\<rparr>
      | Some l \<Rightarrow> s)"

definition the_link :: "('m, 's) platform \<Rightarrow> link_id \<Rightarrow> 'm topology_plugin_impl \<Rightarrow> 'm topo_link" where
  "the_link P lid s = (case links s lid of None \<Rightarrow> topo_link_init P | Some l \<Rightarrow> l)"

definition nodes_at :: "('m, 's) platform \<Rightarrow> node_id \<Rightarrow> 'm topology_plugin_impl \<Rightarrow> 'm topology_plugin_impl" where
  "nodes_at P n s =
     (case nodes s n of
        None \<Rightarrow> s\<lparr>nodes := (nodes s)(n \<mapsto> topo_node_init P)\<rparr>
      | Some nd \<Rightarrow> s)"

definition the_node :: "('m, 's) platform \<Rightarrow> node_id \<Rightarrow> 'm topology_plugin_impl \<Rightarrow> 'm topo_node" where
  "the_node P n s = (case nodes s n of None \<Rightarrow> topo_node_init P | Some nd \<Rightarrow> nd)"

definition the_route :: "'m topo_node \<Rightarrow> node_id \<Rightarrow> route_descriptor" where
  "the_route nd to = (case routes nd to of None \<Rightarrow> route_descriptor_init | Some r \<Rightarrow> r)"

text \<open>Storing a route entry in the cache of the node under key \<open>n\<close>: \<^verbatim>\<open>nodes[n].routes[to] = r\<close>.\<close>

definition set_route ::
  "('m, 's) platform \<Rightarrow> node_id \<Rightarrow> node_id \<Rightarrow> route_descriptor \<Rightarrow> 'm topology_plugin_impl \<Rightarrow> 'm topology_plugin_impl" where
  "set_route P n to r s =
     s\<lparr>nodes := (nodes s)(n \<mapsto> (the_node P n s)\<lparr>routes := (routes (the_node P n s))(to \<mapsto> r)\<rparr>)\<rparr>"

section \<open>Identity generator\<close>

text \<open>
  \<^verbatim>\<open>gen_long_id\<close> streams location, role, version and every hosted producer into one string
  and hashes it; \<^verbatim>\<open>make_node_id\<close> takes the first 64-bit word of the digest.
\<close>

definition gen_long_id :: "('m, 's) platform \<Rightarrow> node_descriptor \<Rightarrow> sha256" where
  "gen_long_id P desc =
     sha256_hash P
       (location desc @ node_role_out P (role desc) @ version desc
          @ concat (map (name_out P) (producers_nd desc)))"

definition make_node_id :: "sha256 \<Rightarrow> node_id" where
  "make_node_id long_id = fst long_id"

definition gen_id_node :: "('m, 's) platform \<Rightarrow> node_descriptor \<Rightarrow> node_id" where
  "gen_id_node P desc = make_node_id (gen_long_id P desc)"

fun link_role_str :: "link_role \<Rightarrow> string" where
  "link_role_str blocks = ''blocks''"
| "link_role_str transactions = ''transactions''"
| "link_role_str control = ''control''"
| "link_role_str combined = ''combined''"

definition gen_id_link :: "('m, 's) platform \<Rightarrow> link_descriptor \<Rightarrow> link_id" where
  "gen_id_link P desc =
     string_hash P
       (node_id_out P (active_ld desc) @ node_id_out P (passive_ld desc) @ link_role_str (role_ld desc))"

section \<open>Topology graph store\<close>

text \<open>
  \<^verbatim>\<open>add_node\<close> assigns an id to a descriptor that has none (id 0), inserts a fresh node
  record when the id is not in the table and returns the id. The descriptor is passed by
  reference and keeps the assigned id; the caller reads it from the result.
\<close>

definition add_node ::
  "('m, 's) platform \<Rightarrow> node_descriptor \<Rightarrow> 'm topology_plugin_impl \<Rightarrow> node_id \<times> 'm topology_plugin_impl" where
  "add_node P n s =
     (let n' = (if my_id n = 0 then n\<lparr>my_id := gen_id_node P n\<rparr> else n);
          nid = my_id n'
      in (nid, if nodes s nid = None then s\<lparr>nodes := (nodes s)(nid \<mapsto> topo_node_of P n')\<rparr> else s))"

definition drop_node :: "node_id \<Rightarrow> 'm topology_plugin_impl \<Rightarrow> 'm topology_plugin_impl" where
  "drop_node nid s = s\<lparr>nodes := (nodes s)(nid := None)\<rparr>"

text \<open>
  One of the two blocks of \<^verbatim>\<open>add_link\<close> that register the link id with an endpoint: when the
  endpoint is in the node table the id is inserted into its link set, otherwise a line is
  logged and nothing changes.
\<close>

definition register_link :: "node_id \<Rightarrow> link_id \<Rightarrow> 'm topology_plugin_impl \<Rightarrow> 'm topology_plugin_impl" where
  "register_link n lid s =
     (case nodes s n of
        None \<Rightarrow> s
      | Some mn \<Rightarrow>
          if lid \<notin> links_n mn then s\<lparr>nodes := (nodes s)(n \<mapsto> mn\<lparr>links_n := insert lid (links_n mn)\<rparr>)\<rparr>
          else s)"

text \<open>\<^verbatim>\<open>flat_map::emplace\<close> stores the record only when the key is new.\<close>

definition add_link ::
  "('m, 's) platform \<Rightarrow> link_descriptor \<Rightarrow> 'm topology_plugin_impl \<Rightarrow> link_id \<times> 'm topology_plugin_impl" where
  "add_link P l0 s =
     (let lid = gen_id_link P l0;
          l = l0\<lparr>my_id_ld := lid\<rparr>;
          s1 = register_link (active_ld l) (my_id_ld l) s;
          s2 = register_link (passive_ld l) (my_id_ld l) s1
      in (lid, if links s2 lid = None then s2\<lparr>links := (links s2)(lid \<mapsto> topo_link_of P l)\<rparr> else s2))"

text \<open>\<^verbatim>\<open>drop_link\<close> is the single statement \<^verbatim>\<open>links[id].closures++\<close>.\<close>

definition drop_link :: "('m, 's) platform \<Rightarrow> link_id \<Rightarrow> 'm topology_plugin_impl \<Rightarrow> 'm topology_plugin_impl" where
  "drop_link P lid s =
     s\<lparr>links := (links s)(lid \<mapsto> (the_link P lid s)\<lparr>closures := closures (the_link P lid s) + 1\<rparr>)\<rparr>"

text \<open>\<^verbatim>\<open>struct map_update\<close>, as \<^verbatim>\<open>update_map\<close> reads it: four lists.\<close>

record map_update =
  add_nodes :: "node_descriptor list"
  add_links :: "link_descriptor list"
  drop_nodes :: "node_id list"
  drop_links :: "link_id list"

text \<open>
  \<^verbatim>\<open>update_map\<close> runs four loops in this order: added nodes, added links, dropped nodes,
  dropped links. Each added descriptor is copied first, so the delta itself is not changed.
\<close>

definition update_map :: "('m, 's) platform \<Rightarrow> map_update \<Rightarrow> 'm topology_plugin_impl \<Rightarrow> 'm topology_plugin_impl" where
  "update_map P mu s =
     (let s1 = fold (\<lambda>an s. snd (add_node P an s)) (add_nodes mu) s;
          s2 = fold (\<lambda>al s. snd (add_link P al s)) (add_links mu) s1;
          s3 = fold drop_node (drop_nodes mu) s2
      in fold (drop_link P) (drop_links mu) s3)"

section \<open>Metric sampler\<close>

text \<open>
  Modelled from the spec: \<^verbatim>\<open>link_sample\<close> is declared in a header that is not part of the
  sources at hand; this file reads its link id and its two directions.
  \<^verbatim>\<open>update_samples\<close> folds the two directions of a sample into the two bundles of the
  link, crosswise when the sample is flipped; a sample for an unknown link is ignored.
\<close>

record 's link_sample =
  link :: link_id
  up_ls :: 's
  down_ls :: 's

definition update_samples ::
  "('m, 's) platform \<Rightarrow> 's link_sample \<Rightarrow> bool \<Rightarrow> 'm topology_plugin_impl \<Rightarrow> 'm topology_plugin_impl" where
  "update_samples P ls flip s =
     (case links s (link ls) of
        None \<Rightarrow> s
      | Some l \<Rightarrow>
          s\<lparr>links := (links s)(link ls \<mapsto>
               l\<lparr>down := metrics_sample P (if flip then up_ls ls else down_ls ls) (down l),
                 up := metrics_sample P (if flip then down_ls ls else up_ls ls) (up l)\<rparr>)\<rparr>)"

section \<open>Routing engine\<close>

text \<open>
  \<^verbatim>\<open>find_route_i\<close> is a depth-first search with a set of visited nodes that all calls share
  (it is passed by reference, so a callee's insertions stay). The node \<^verbatim>\<open>from\<close> is a
  reference into the node table and is modelled by its key. The body first reads
  \<^verbatim>\<open>from.routes[to]\<close>, which inserts the default entry (length -1, path 0) when there is none;
  an entry whose path is not 0 is returned at once. Otherwise \<open>find_route_loop\<close> is the
  \<^verbatim>\<open>for\<close> loop over \<^verbatim>\<open>from.links\<close> in ascending order of the link ids, with the best entry
  found so far. Lengths are \<^verbatim>\<open>int16_t\<close>, compared as signed values.

  A neighbour that has no record in the node table gets a default one from \<^verbatim>\<open>nodes[peer]\<close>.
  The model goes on with the node \<^verbatim>\<open>from\<close> under its key; what the insertion does to
  references into the container is a matter of memory layout and is not modelled.

  The recursion ends because every recursive call has inserted a node id into the visited set
  that was not in it, and there are finitely many node ids.
\<close>

function find_route_i ::
    "('m, 's) platform \<Rightarrow> node_id set \<Rightarrow> node_id \<Rightarrow> node_id \<Rightarrow> 'm topology_plugin_impl
       \<Rightarrow> node_id set \<times> 'm topology_plugin_impl \<times> 16 word"
  and find_route_loop ::
    "('m, 's) platform \<Rightarrow> node_id set \<Rightarrow> node_id \<Rightarrow> node_id \<Rightarrow> link_id list \<Rightarrow> route_descriptor
       \<Rightarrow> 'm topology_plugin_impl \<Rightarrow> node_id set \<times> 'm topology_plugin_impl \<times> 16 word"
  where
  "find_route_i P seen to from s =
     (let best = the_route (the_node P from s) to;
          s1 = set_route P from to best s
      in if path best \<noteq> 0 then (seen, s1, length_r best)
         else find_route_loop P seen to from (sorted_list_of_set (links_n (the_node P from s1))) best s1)"
| "find_route_loop P seen to from [] best s = (seen, set_route P from to best s, length_r best)"
| "find_route_loop P seen to from (lid # lids) best s =
     (case links s lid of
        None \<Rightarrow> find_route_loop P seen to from lids best s
      | Some l \<Rightarrow>
          let peer = (if active_ld (info_l l) = my_id (info (the_node P from s))
                      then passive_ld (info_l l) else active_ld (info_l l))
          in if peer = to then (seen, set_route P from to \<lparr>length_r = 1, path = lid\<rparr> s, 1)
             else if peer \<in> seen then find_route_loop P seen to from lids best s
             else (case find_route_i P (insert peer seen) to peer (nodes_at P peer s) of
                     (seen', s', res) \<Rightarrow>
                       find_route_loop P seen' to from lids
                         (if res = - 1 then best
                          else if res + 1 <s length_r best \<or> length_r best <s 1
                               then \<lparr>length_r = res + 1, path = lid\<rparr> else best)
                         s'))"
  by pat_completeness auto

lemma find_route_seen_partial:
  "find_route_i_find_route_loop_dom (Inl (P, seen, to, from, s)) \<Longrightarrow>
     seen \<subseteq> fst (find_route_i P seen to from s)"
  "find_route_i_find_route_loop_dom (Inr (P, seen, to, from, lids, best, s)) \<Longrightarrow>
     seen \<subseteq> fst (find_route_loop P seen to from lids best s)"
proof (induction P seen to "from" s and P seen to "from" lids best s rule: find_route_i_find_route_loop.pinduct)
  case (1 P seen to frm s)
  then show ?case by (simp add: find_route_i.psimps Let_def)
next
  case (2 P seen to frm best s)
  then show ?case by (simp add: find_route_loop.psimps)
next
  case (3 P seen to frm lid lids best s)
  show ?case
  proof (cases "links s lid")
    case None
    with 3 show ?thesis by (simp add: find_route_loop.psimps)
  next
    case (Some l)
    define peer where "peer = (if active_ld (info_l l) = my_id (info (the_node P frm s))
                      then passive_ld (info_l l) else active_ld (info_l l))"
    show ?thesis
    proof (cases "peer = to \<or> peer \<in> seen")
      case True
      with 3(1,3) Some peer_def show ?thesis
        by (auto simp add: find_route_loop.psimps Let_def)
    next
      case False
      obtain seen' s' res where r: "find_route_i P (insert peer seen) to peer (nodes_at P peer s) = (seen', s', res)"
        by (metis prod_cases3)
      define best' where "best' = (if res = - 1 then best
                          else if res + 1 <s length_r best \<or> length_r best <s 1
                               then \<lparr>length_r = res + 1, path = lid\<rparr> else best)"
      from 3(4)[OF Some peer_def] False r have a: "insert peer seen \<subseteq> seen'" by simp
      from 3(5)[OF Some peer_def _ _ r[symmetric] refl] False
      have b: "seen' \<subseteq> fst (find_route_loop P seen' to frm lids best' s')"
        unfolding best'_def by simp
      have eq: "find_route_loop P seen to frm (lid # lids) best s
                  = find_route_loop P seen' to frm lids best' s'"
        using 3(1) Some False r
        by (simp add: find_route_loop.psimps Let_def peer_def[symmetric] best'_def)
      from a b show ?thesis unfolding eq by blast
    qed
  qed
qed

termination find_route_i
proof (relation "measures
    [\<lambda>x. case x of Inl (P, seen, to, from, s) \<Rightarrow> card (- seen)
                  | Inr (P, seen, to, from, lids, best, s) \<Rightarrow> card (- seen),
     \<lambda>x. case x of Inl _ \<Rightarrow> Suc 0 | Inr _ \<Rightarrow> 0,
     \<lambda>x. case x of Inl _ \<Rightarrow> 0 | Inr (P, seen, to, from, lids, best, s) \<Rightarrow> length lids]", goal_cases)
  case 1
  show ?case by simp
next
  case (2 P seen to frm s x xa)
  show ?case by simp
next
  case (3 P seen to frm lid lids best s)
  show ?case by simp
next
  case (4 P seen to frm lid lids best s x2 x)
  show ?case by simp
next
  case (5 P seen to frm lid lids best s x2 x)
  have "- insert x seen \<subset> - seen"
    using 5 by blast
  then have "card (- insert x seen) < card (- seen)"
    by (rule psubset_card_mono[OF finite])
  then show ?case by simp
next
  case (6 P seen to frm lid lids best s x2 x xa y xb ya)
  have "fst (find_route_i P (insert x seen) to x (nodes_at P x s)) = xa"
    using 6(5) by (metis fst_conv)
  with find_route_seen_partial(1)[OF 6(7)] have "insert x seen \<subseteq> xa"
    by simp
  then have "- xa \<subseteq> - seen" by blast
  then have "card (- xa) \<le> card (- seen)"
    by (rule card_mono[OF finite])
  then show ?case by auto
qed


declare find_route_i.simps [simp del] find_route_loop.simps [simp del]

text \<open>
  \<^verbatim>\<open>find_route\<close>: both end points have to be in the node table; a route from a node to itself
  has length 0 and is stored with the node id in the place of the first link.
\<close>

definition find_route ::
  "('m, 's) platform \<Rightarrow> node_id \<Rightarrow> node_id \<Rightarrow> 'm topology_plugin_impl \<Rightarrow> 16 word \<times> 'm topology_plugin_impl" where
  "find_route P from to s =
     (if nodes s to = None then (- 1, s)
      else if nodes s from = None then (- 1, s)
      else if to = from then
        (let s1 = set_route P from to ((the_route (the_node P from s) to)\<lparr>length_r := 0\<rparr>) s;
             s2 = set_route P from to ((the_route (the_node P from s1) to)\<lparr>path := to\<rparr>) s1
         in (0, s2))
      else (case find_route_i P {from} to from s of (seen, s', l) \<Rightarrow> (l, s')))"

definition peer_node :: "link_id \<Rightarrow> node_id \<Rightarrow> 'm topology_plugin_impl \<Rightarrow> node_id" where
  "peer_node onlink from s =
     (case links s onlink of
        None \<Rightarrow> 0
      | Some l \<Rightarrow> if active_ld (info_l l) = from then passive_ld (info_l l) else active_ld (info_l l))"

section \<open>Deviation detector\<close>

text \<open>
  \<^verbatim>\<open>producers[name]\<close> on an absent name inserts a value-initialised \<^verbatim>\<open>topo_producer\<close>: all
  numbers zero, no recorded deviations.
\<close>

definition fork_descriptor_init :: fork_descriptor where
  "fork_descriptor_init = \<lparr>from_link = 0, fork_base = 0, depth = 0, deficit = 0, overage = 0\<rparr>"

definition topo_producer_init :: topo_producer where
  "topo_producer_init = \<lparr>id_p = 0, current = fork_descriptor_init, forks = []\<rparr>"

definition the_producer :: "account_name \<Rightarrow> 'm topology_plugin_impl \<Rightarrow> topo_producer" where
  "the_producer a s = (case producers s a of None \<Rightarrow> topo_producer_init | Some p \<Rightarrow> p)"

definition set_producer ::
  "account_name \<Rightarrow> topo_producer \<Rightarrow> 'm topology_plugin_impl \<Rightarrow> 'm topology_plugin_impl" where
  "set_producer a p s = s\<lparr>producers := (producers s)(a \<mapsto> p)\<rparr>"

text \<open>
  What \<^verbatim>\<open>on_block_recv\<close> takes from outside: the producer named in the block, and the head
  and pending producer as the chain controller reports them. \<open>None\<close> stands for a call to the
  controller that throws \<^verbatim>\<open>fc::exception\<close>, which the function catches and logs. The head
  block id that the function also fetches is not used.
\<close>

record signed_block =
  producer_sb :: account_name

record controller =
  head_block_producer :: "account_name option"
  pending_block_producer :: "account_name option"

text \<open>The lines that \<^verbatim>\<open>on_block_recv\<close> writes to the error log, with their arguments.\<close>

datatype log_line =
  Overproduced account_name "16 word"
| Switched_too_soon account_name account_name "16 word"
| Previous_producer_block account_name
| Unable_to_process

text \<open>
  The deficit branch of \<^verbatim>\<open>on_block_recv\<close>: it appends
  \<^verbatim>\<open>fork_descriptor({src, blk_id, block_count, deficit, 0})\<close> to the history of the head
  producer, and then, when the open record of the previous producer has a link, appends that
  record to the previous producer's history, clears its link and makes the head producer the
  previous producer. Reading \<^verbatim>\<open>producers[prev_producer]\<close> in the test inserts an entry for
  the previous producer when there is none.
\<close>

definition record_deficit ::
  "link_id \<Rightarrow> block_id_type \<Rightarrow> account_name \<Rightarrow> 16 word \<Rightarrow> 'm topology_plugin_impl \<Rightarrow> 'm topology_plugin_impl" where
  "record_deficit src blk_id head_prod deficit_v s =
     (let hp = the_producer head_prod s;
          s1 = set_producer head_prod
                 (hp\<lparr>forks := forks hp @
                    [\<lparr>from_link = src, fork_base = blk_id, depth = block_count s,
                      deficit = deficit_v, overage = 0\<rparr>]\<rparr>) s;
          pp = the_producer (prev_producer s1) s1
      in if from_link (current pp) \<noteq> 0 then
           (set_producer (prev_producer s1)
              (pp\<lparr>forks := forks pp @ [current pp], current := (current pp)\<lparr>from_link := 0\<rparr>\<rparr>) s1)
             \<lparr>prev_producer := head_prod\<rparr>
         else set_producer (prev_producer s1) pp s1)"

definition on_block_recv ::
  "controller \<Rightarrow> link_id \<Rightarrow> block_id_type \<Rightarrow> signed_block \<Rightarrow> 'm topology_plugin_impl
     \<Rightarrow> 'm topology_plugin_impl \<times> log_line list" where
  "on_block_recv cc src blk_id sb s =
     (case head_block_producer cc of
        None \<Rightarrow> (s, [Unable_to_process])
      | Some head_prod \<Rightarrow>
     (case pending_block_producer cc of
        None \<Rightarrow> (s, [Unable_to_process])
      | Some pend_prod \<Rightarrow>
          if producer_sb sb = head_prod then
            (let s1 = s\<lparr>block_count := block_count s + 1\<rparr>
             in if max_produced s1 < block_count s1
                then (s1, [Overproduced head_prod (block_count s1 - max_produced s1)])
                else (s1, []))
          else if producer_sb sb = pend_prod then
            (if block_count s < max_produced s
             then (let deficit_v = max_produced s - block_count s
                   in ((record_deficit src blk_id head_prod deficit_v s)\<lparr>block_count := 1\<rparr>,
                       [Switched_too_soon pend_prod head_prod deficit_v]))
             else (s\<lparr>block_count := 1\<rparr>, []))
          else if producer_sb sb = prev_producer s then (s, [Previous_producer_block (prev_producer s)])
          else (s, [])))"

text \<open>
  How \<^verbatim>\<open>report\<close> reads a recorded deviation: the first of depth, deficit and overage that is
  not zero decides what is printed.
\<close>

datatype symptom = Fork_of "16 word" | Deficit_of "16 word" | Overage_of "16 word" | No_symptom

definition report_symptom :: "fork_descriptor \<Rightarrow> symptom" where
  "report_symptom fdes =
     (if 0 < depth fdes then Fork_of (depth fdes)
      else if 0 < deficit fdes then Deficit_of (deficit fdes)
      else if 0 < overage fdes then Overage_of (overage fdes)
      else No_symptom)"

section \<open>Gossip dispatcher\<close>

text \<open>
  Modelled from the spec: \<^verbatim>\<open>topology_message\<close> is declared in a header that is not part of
  the sources at hand. It carries the origin, the destination (0 for none), the count of
  forwards and the time to live, both taken as \<^verbatim>\<open>uint16_t\<close> as the \<^verbatim>\<open>max_hops\<close> that
  initialises the latter; the payload list is not read by the forward decision and is left out.
\<close>

record topology_message =
  origin :: node_id
  destination :: node_id
  fwds :: "16 word"
  ttl :: "16 word"

definition init_topology_message :: "'m topology_plugin_impl \<Rightarrow> topology_message" where
  "init_topology_message s = \<lparr>origin = local_node_id s, destination = 0, fwds = 0, ttl = max_hops s\<rparr>"

text \<open>
  \<^verbatim>\<open>forward_topology_message\<close>. The first statement takes \<^verbatim>\<open>links[li]\<close>, which inserts a
  default link record for an unknown link; the peer id computed from it is not used. The
  length is read from the route cache of the
  origin node, under the local node as the destination (both \<^verbatim>\<open>operator[]\<close> insert what is
  absent), and is computed by \<^verbatim>\<open>find_route\<close> from the local node to the origin when that
  entry holds -1. The comparison of the \<^verbatim>\<open>int16_t\<close> length with the unsigned forward count
  is done on integers.
\<close>

definition forward_topology_message ::
  "('m, 's) platform \<Rightarrow> topology_message \<Rightarrow> link_id \<Rightarrow> 'm topology_plugin_impl \<Rightarrow> bool \<times> 'm topology_plugin_impl" where
  "forward_topology_message P tm li s =
     (let s1 = links_at P li s
      in if origin tm = local_node_id s1 \<and> 0 < fwds tm then (False, s1)
         else
           (let s2 = nodes_at P (origin tm) s1;
                cached = the_route (the_node P (origin tm) s2) (local_node_id s2);
                s3 = set_route P (origin tm) (local_node_id s2) cached s2;
                (len, s4) = (if length_r cached = - 1
                             then find_route P (local_node_id s3) (origin tm) s3
                             else (length_r cached, s3))
            in if sint len < uint (fwds tm) then (False, s4) else (True, s4)))"

section \<open>The plugin as constructed, and a sample platform\<close>

text \<open>
  The plugin object as its constructor and the option defaults leave it: empty tables, a quota
  of 12 blocks, no block counted. The local node id is set by \<^verbatim>\<open>set_local_node_id\<close>.
\<close>

definition topology_plugin_impl_init :: "node_id \<Rightarrow> 'm topology_plugin_impl" where
  "topology_plugin_impl_init local =
     \<lparr>nodes = Map.empty, links = Map.empty, producers = Map.empty,
      sample_interval_sec = 5, max_hops = 6, max_produced = 12, block_count = 0,
      prev_producer = 0, local_node_id = local, local_producers = {}\<rparr>"

text \<open>Decimal output of a number, as \<^verbatim>\<open>operator<<\<close> writes an unsigned integer.\<close>

fun dec_digits :: "nat \<Rightarrow> string" where
  "dec_digits n =
     (if n < 10 then [''0123456789'' ! n] else dec_digits (n div 10) @ [''0123456789'' ! (n mod 10)])"

declare dec_digits.simps [simp del]

text \<open>
  A platform to run the definitions on: ids, names and roles are written in decimal, a string
  is hashed by a polynomial in its characters, descriptors start with zeros and the metrics
  bundle is trivial.
\<close>

definition poly_hash :: "string \<Rightarrow> 64 word" where
  "poly_hash s = foldl (\<lambda>a c. a * 31 + of_char c) 7 s"

definition ex_platform :: "(unit, unit) platform" where
  "ex_platform =
     \<lparr>sha256_hash = (\<lambda>s. (poly_hash s, 0, 0, 0)),
      string_hash = poly_hash,
      node_role_out = (\<lambda>r. dec_digits (case r of producer \<Rightarrow> 1 | backup \<Rightarrow> 2 | api \<Rightarrow> 4
                                           | full \<Rightarrow> 8 | gateway \<Rightarrow> 16 | special \<Rightarrow> 32)),
      node_id_out = (\<lambda>n. dec_digits (unat n)),
      name_out = (\<lambda>a. dec_digits (unat a)),
      node_descriptor_init =
        \<lparr>my_id = 0, location = [], role = producer, status = 0, version = [], producers_nd = []\<rparr>,
      link_descriptor_init =
        \<lparr>my_id_ld = 0, active_ld = 0, passive_ld = 0, role_ld = blocks, hops = 0\<rparr>,
      link_metrics_init = (),
      metrics_sample = (\<lambda>x m. m)\<rparr>"

text \<open>A chain that reports producer 100 as the head and producer 200 as the pending producer.\<close>

definition ex_controller :: controller where
  "ex_controller = \<lparr>head_block_producer = Some 100, pending_block_producer = Some 200\<rparr>"

text \<open>The freshly constructed plugin after \<open>n\<close> blocks of the head producer were counted.\<close>

definition ex_detector :: "16 word \<Rightarrow> unit topology_plugin_impl" where
  "ex_detector n = (topology_plugin_impl_init 1)\<lparr>block_count := n\<rparr>"

section \<open>Notions used to state the properties\<close>

subsection \<open>Graphs and chains\<close>

text \<open>
  The node at the other end of a link, as the loop of \<^verbatim>\<open>find_route_i\<close> computes it: the
  passive end when the active end is the node's own id, the active end otherwise.
\<close>

definition far_end :: "('m, 's) platform \<Rightarrow> node_id \<Rightarrow> 'm topo_link \<Rightarrow> 'm topology_plugin_impl \<Rightarrow> node_id" where
  "far_end P from l s =
     (if active_ld (info_l l) = my_id (info (the_node P from s))
      then passive_ld (info_l l) else active_ld (info_l l))"

text \<open>
  The part of the state that the routing engine reads and never writes: the link table, and
  the descriptor and link set of every node (of the default node for an id without a record).
\<close>

definition graph_of ::
  "('m, 's) platform \<Rightarrow> 'm topology_plugin_impl
     \<Rightarrow> (link_id \<rightharpoonup> 'm topo_link) \<times> (node_id \<Rightarrow> node_descriptor \<times> link_id set)" where
  "graph_of P s = (links s, \<lambda>n. (info (the_node P n s), links_n (the_node P n s)))"

text \<open>A link record between two nodes, in one of the two directions.\<close>

definition joins :: "'m topo_link \<Rightarrow> node_id \<Rightarrow> node_id \<Rightarrow> bool" where
  "joins l a b \<longleftrightarrow>
     (active_ld (info_l l) = a \<and> passive_ld (info_l l) = b)
     \<or> (active_ld (info_l l) = b \<and> passive_ld (info_l l) = a)"

text \<open>A node record as \<^verbatim>\<open>add_node\<close> and \<^verbatim>\<open>add_link\<close> leave it: its id, its links, no routes.\<close>

definition fresh_node :: "'m topo_node \<Rightarrow> node_id \<Rightarrow> link_id set \<Rightarrow> bool" where
  "fresh_node nd n ls \<longleftrightarrow> my_id (info nd) = n \<and> links_n nd = ls \<and> routes nd = Map.empty"

text \<open>
  The graph holds exactly the chain A - B - C - D: four nodes and three links, every link
  registered in the link sets of both its end points, and no route cached yet.
\<close>

definition chain_graph ::
  "('m, 's) platform \<Rightarrow> 'm topology_plugin_impl \<Rightarrow> node_id \<Rightarrow> node_id \<Rightarrow> node_id \<Rightarrow> node_id
     \<Rightarrow> link_id \<Rightarrow> link_id \<Rightarrow> link_id \<Rightarrow> bool" where
  "chain_graph P s A B C D ab bc cd \<longleftrightarrow>
     distinct [A, B, C, D] \<and> distinct [ab, bc, cd]
     \<and> dom (nodes s) = {A, B, C, D} \<and> dom (links s) = {ab, bc, cd}
     \<and> fresh_node (the_node P A s) A {ab} \<and> fresh_node (the_node P B s) B {ab, bc}
     \<and> fresh_node (the_node P C s) C {bc, cd} \<and> fresh_node (the_node P D s) D {cd}
     \<and> joins (the_link P ab s) A B \<and> joins (the_link P bc s) B C \<and> joins (the_link P cd s) C D"

text \<open>A chain of the nodes 1, 2, 3, 4 with the links 12, 23 and 34 on the sample platform.\<close>

definition ex_node :: "node_id \<Rightarrow> link_id set \<Rightarrow> unit topo_node" where
  "ex_node n ls =
     (topo_node_of ex_platform
        \<lparr>my_id = n, location = ''bp'', role = producer, status = 0, version = ''v1'', producers_nd = []\<rparr>)
       \<lparr>links_n := ls\<rparr>"

definition ex_link :: "link_id \<Rightarrow> node_id \<Rightarrow> node_id \<Rightarrow> unit topo_link" where
  "ex_link lid a p =
     topo_link_of ex_platform \<lparr>my_id_ld = lid, active_ld = a, passive_ld = p, role_ld = blocks, hops = 0\<rparr>"

definition ex_chain :: "unit topology_plugin_impl" where
  "ex_chain =
     (topology_plugin_impl_init 1)
       \<lparr>nodes := [1 \<mapsto> ex_node 1 {12}, 2 \<mapsto> ex_node 2 {12, 23}, 3 \<mapsto> ex_node 3 {23, 34},
                  4 \<mapsto> ex_node 4 {34}],
        links := [12 \<mapsto> ex_link 12 1 2, 23 \<mapsto> ex_link 23 3 2, 34 \<mapsto> ex_link 34 3 4]\<rparr>"

subsection \<open>Sequences of operations\<close>

text \<open>
  The calls that reach the plugin, as data: the four mutations of the graph store, a map delta,
  a link sample, a route query, the forward decision for a message and the arrival of a block.
\<close>

datatype 's operation =
    Add_node node_descriptor
  | Drop_node node_id
  | Add_link link_descriptor
  | Drop_link link_id
  | Update_map map_update
  | Update_samples "'s link_sample" bool
  | Find_route node_id node_id
  | Forward_topology_message topology_message link_id
  | On_block_recv controller link_id block_id_type signed_block

fun apply_op :: "('m, 's) platform \<Rightarrow> 's operation \<Rightarrow> 'm topology_plugin_impl \<Rightarrow> 'm topology_plugin_impl" where
  "apply_op P (Add_node n) s = snd (add_node P n s)"
| "apply_op P (Drop_node n) s = drop_node n s"
| "apply_op P (Add_link l) s = snd (add_link P l s)"
| "apply_op P (Drop_link lid) s = drop_link P lid s"
| "apply_op P (Update_map mu) s = update_map P mu s"
| "apply_op P (Update_samples ls flip) s = update_samples P ls flip s"
| "apply_op P (Find_route from to) s = snd (find_route P from to s)"
| "apply_op P (Forward_topology_message tm li) s = snd (forward_topology_message P tm li s)"
| "apply_op P (On_block_recv cc src blk_id sb) s = fst (on_block_recv cc src blk_id sb s)"

definition run_ops :: "('m, 's) platform \<Rightarrow> 's operation list \<Rightarrow> 'm topology_plugin_impl \<Rightarrow> 'm topology_plugin_impl" where
  "run_ops P ops s = fold (apply_op P) ops s"

text \<open>
  The number of \<^verbatim>\<open>drop_link\<close> calls that an operation makes for a link id: one for a direct
  call with that id, one for each occurrence of the id in the dropped links of a map delta.
\<close>

fun drop_calls :: "link_id \<Rightarrow> 's operation \<Rightarrow> nat" where
  "drop_calls lid (Drop_link k) = (if k = lid then 1 else 0)"
| "drop_calls lid (Update_map mu) = count_list (drop_links mu) lid"
| "drop_calls lid _ = 0"

definition drops_observed :: "link_id \<Rightarrow> 's operation list \<Rightarrow> nat" where
  "drops_observed lid ops = sum_list (map (drop_calls lid) ops)"

text \<open>The closure counter of a link id; a link id without a record has seen no closure.\<close>

definition closures_of :: "link_id \<Rightarrow> 'm topology_plugin_impl \<Rightarrow> 32 word" where
  "closures_of lid s = (case links s lid of None \<Rightarrow> 0 | Some l \<Rightarrow> closures l)"

text \<open>
  Between two states, the record of the link is not lost and its closure counter has grown by
  \<open>n\<close> (modulo \<open>2 ^ 32\<close>, the counter being a \<^verbatim>\<open>uint32_t\<close>).
\<close>

definition dropped :: "link_id \<Rightarrow> nat \<Rightarrow> 'm topology_plugin_impl \<Rightarrow> 'm topology_plugin_impl \<Rightarrow> bool" where
  "dropped lid n s s' \<longleftrightarrow>
     (links s lid = None \<or> links s' lid \<noteq> None) \<and> closures_of lid s' = closures_of lid s + of_nat n"

subsection \<open>Map deltas\<close>

text \<open>
  The key under which \<^verbatim>\<open>add_node\<close> files a descriptor, and the link ids that the added
  links of a delta register with a node.
\<close>

definition node_key :: "('m, 's) platform \<Rightarrow> node_descriptor \<Rightarrow> node_id" where
  "node_key P n = (if my_id n = 0 then gen_id_node P n else my_id n)"

definition links_of_node :: "('m, 's) platform \<Rightarrow> link_descriptor list \<Rightarrow> node_id \<Rightarrow> link_id set" where
  "links_of_node P al k = {gen_id_link P l | l. l \<in> set al \<and> (active_ld l = k \<or> passive_ld l = k)}"

text \<open>Two map deltas: one that only drops link 7, one that adds two nodes and a link.\<close>

definition ex_delta_drop :: map_update where
  "ex_delta_drop = \<lparr>add_nodes = [], add_links = [], drop_nodes = [], drop_links = [7]\<rparr>"

definition ex_delta_add :: map_update where
  "ex_delta_add =
     \<lparr>add_nodes =
        [\<lparr>my_id = 1, location = ''bp:a'', role = producer, status = 0, version = ''v1'', producers_nd = []\<rparr>,
         \<lparr>my_id = 2, location = ''bp:b'', role = producer, status = 0, version = ''v1'', producers_nd = []\<rparr>],
      add_links = [\<lparr>my_id_ld = 0, active_ld = 1, passive_ld = 2, role_ld = blocks, hops = 0\<rparr>],
      drop_nodes = [], drop_links = []\<rparr>"

subsection \<open>The forward decision\<close>




subsection \<open>Connected nodes\<close>








section \<open>Properties of the graph store\<close>

lemma drop_link_nodes: "nodes (drop_link P lid s) = nodes s"
  by (simp add: drop_link_def)

lemma drop_link_dom: "dom (links (drop_link P lid s)) = insert lid (dom (links s))"
  by (simp add: drop_link_def)

lemma drop_link_other: "k \<noteq> lid \<Longrightarrow> links (drop_link P lid s) k = links s k"
  by (simp add: drop_link_def)

text \<open>
  C10. Dropping a link id that is not in the link table is not a no-op: \<^verbatim>\<open>links[id]\<close>
  inserts a default-constructed record under the id, whose closure counter the increment
  then sets to 1. The table has one entry more than before; the node table is untouched.
\<close>

theorem drop_link_absent:
  "links s lid = None \<Longrightarrow> finite (dom (links s)) \<Longrightarrow>
     links (drop_link P lid s) = (links s)(lid \<mapsto> (topo_link_init P)\<lparr>closures := 1\<rparr>)
     \<and> card (dom (links (drop_link P lid s))) = card (dom (links s)) + 1
     \<and> nodes (drop_link P lid s) = nodes s"
  by (simp add: drop_link_def the_link_def topo_link_init_def domIff)

theorem drop_link_absent_witness:
  "links (topology_plugin_impl_init 1 :: unit topology_plugin_impl) 7 = None
   \<and> finite (dom (links (topology_plugin_impl_init 1 :: unit topology_plugin_impl)))
   \<and> links (drop_link ex_platform 7 (topology_plugin_impl_init 1))
        = (links (topology_plugin_impl_init 1))(7 \<mapsto> (topo_link_init ex_platform)\<lparr>closures := 1\<rparr>)
   \<and> card (dom (links (drop_link ex_platform 7 (topology_plugin_impl_init 1))))
        = card (dom (links (topology_plugin_impl_init 1 :: unit topology_plugin_impl))) + 1"
  using drop_link_absent [of "topology_plugin_impl_init 1" 7 ex_platform]
  by (simp add: topology_plugin_impl_init_def)

section \<open>Properties of the identity generator\<close>

text \<open>
  C8. The node id is a function of location, role, version and the list of hosted producers
  only: two descriptors that agree on these get the same id, whatever their stored id and
  status are. The link id is a function of the active id, the passive id and the role only.
  Neither function reads the plugin's state, so the id does not depend on the participant that
  computes it, as long as the participants share the hash functions and the output format.
\<close>

theorem gen_id_deterministic:
  "(location d1 = location d2 \<and> role d1 = role d2 \<and> version d1 = version d2
      \<and> producers_nd d1 = producers_nd d2 \<longrightarrow> gen_id_node P d1 = gen_id_node P d2)
   \<and> (active_ld l1 = active_ld l2 \<and> passive_ld l1 = passive_ld l2 \<and> role_ld l1 = role_ld l2
      \<longrightarrow> gen_id_link P l1 = gen_id_link P l2)"
  by (simp add: gen_id_node_def gen_long_id_def gen_id_link_def)

theorem gen_id_deterministic_witness:
  "gen_id_node ex_platform
      \<lparr>my_id = 0, location = ''bp:a'', role = producer, status = 1, version = ''v1'', producers_nd = [100]\<rparr>
     = gen_id_node ex_platform
      \<lparr>my_id = 9, location = ''bp:a'', role = producer, status = 0, version = ''v1'', producers_nd = [100]\<rparr>
   \<and> gen_id_link ex_platform
      \<lparr>my_id_ld = 0, active_ld = 1, passive_ld = 2, role_ld = blocks, hops = 0\<rparr>
     = gen_id_link ex_platform
      \<lparr>my_id_ld = 5, active_ld = 1, passive_ld = 2, role_ld = blocks, hops = 3\<rparr>"
  using gen_id_deterministic
    [of "\<lparr>my_id = 0, location = ''bp:a'', role = producer, status = 1, version = ''v1'', producers_nd = [100]\<rparr>"
        "\<lparr>my_id = 9, location = ''bp:a'', role = producer, status = 0, version = ''v1'', producers_nd = [100]\<rparr>"
        ex_platform
        "\<lparr>my_id_ld = 0, active_ld = 1, passive_ld = 2, role_ld = blocks, hops = 0\<rparr>"
        "\<lparr>my_id_ld = 5, active_ld = 1, passive_ld = 2, role_ld = blocks, hops = 3\<rparr>"]
  by simp

section \<open>Properties of the deviation detector\<close>

lemma head_block_step:
  "head_block_producer cc = Some hp \<Longrightarrow> pending_block_producer cc = Some pp \<Longrightarrow> producer_sb sb = hp \<Longrightarrow>
   fst (on_block_recv cc src blk_id sb s) = s\<lparr>block_count := block_count s + 1\<rparr>"
  by (simp add: on_block_recv_def Let_def)

lemma head_blocks:
  assumes "head_block_producer cc = Some hp" and "pending_block_producer cc = Some pp"
    and "producer_sb sb = hp"
  shows "((\<lambda>s. fst (on_block_recv cc src blk_id sb s)) ^^ n) s
           = s\<lparr>block_count := block_count s + of_nat n\<rparr>"
proof -
  define f where "f = (\<lambda>s :: 'a topology_plugin_impl. fst (on_block_recv cc src blk_id sb s))"
  have f: "f s = s\<lparr>block_count := block_count s + 1\<rparr>" for s
    unfolding f_def by (rule head_block_step[OF assms])
  have "(f ^^ n) s = s\<lparr>block_count := block_count s + of_nat n\<rparr>"
  proof (induction n)
    case 0
    show ?case by simp
  next
    case (Suc n)
    have "(f ^^ Suc n) s = f ((f ^^ n) s)" by simp
    also have "\<dots> = s\<lparr>block_count := block_count s + of_nat (Suc n)\<rparr>"
      unfolding Suc by (simp add: f add.assoc)
    finally show ?case .
  qed
  then show ?thesis by (simp add: f_def)
qed

text \<open>
  C1. With a quota of 12, twelve blocks of the head producer bring the count of the freshly
  constructed plugin to 12. A thirteenth block of the head producer raises the count to 13 and
  writes the log line with the overage 1. That is all: the producer table is as it was, so no
  deviation record is appended for the producer. The sibling branch for a deficit does append
  one, and the report prints recorded overages.
\<close>

theorem overage_not_recorded:
  "((\<lambda>s. fst (on_block_recv ex_controller 5 77 \<lparr>producer_sb = 100\<rparr> s)) ^^ 12) (ex_detector 0)
     = ex_detector 12
   \<and> on_block_recv ex_controller 5 77 \<lparr>producer_sb = 100\<rparr> (ex_detector 12)
     = (ex_detector 13, [Overproduced 100 1])
   \<and> producers (ex_detector 13) 100 = None"
proof -
  have "((\<lambda>s. fst (on_block_recv ex_controller 5 77 \<lparr>producer_sb = 100\<rparr> s)) ^^ 12) (ex_detector 0)
     = ex_detector 12"
    using head_blocks[where cc = ex_controller and hp = 100 and pp = 200
        and sb = "\<lparr>producer_sb = 100\<rparr>" and src = 5 and blk_id = 77 and n = 12
        and s = "ex_detector 0"]
    by (simp add: ex_controller_def ex_detector_def)
  then show ?thesis
    by (simp add: on_block_recv_def ex_controller_def ex_detector_def topology_plugin_impl_init_def)
qed

text \<open>
  C2. A hand-off is a block whose producer is not the head producer and is the pending
  producer. With a quota of 12 and a count of 8, the record with deficit 4 is appended to the
  history of the outgoing head producer and the count becomes 1. (When the head producer is
  also the previous producer and its open record has a link, that open record follows the
  deficit record in the history.)
\<close>

theorem handoff_deficit:
  assumes "head_block_producer cc = Some hp" and "pending_block_producer cc = Some pp"
    and "producer_sb sb \<noteq> hp" and "producer_sb sb = pp"
    and "max_produced s = 12" and "block_count s = 8"
  shows "block_count (fst (on_block_recv cc src blk_id sb s)) = 1
    \<and> forks (the_producer hp (fst (on_block_recv cc src blk_id sb s)))
        = forks (the_producer hp s)
          @ [\<lparr>from_link = src, fork_base = blk_id, depth = 8, deficit = 4, overage = 0\<rparr>]
          @ (if prev_producer s = hp \<and> from_link (current (the_producer hp s)) \<noteq> 0
             then [current (the_producer hp s)] else [])"
  using assms
  by (simp add: on_block_recv_def record_deficit_def Let_def the_producer_def set_producer_def)

theorem handoff_deficit_witness:
  "head_block_producer ex_controller = Some 100 \<and> pending_block_producer ex_controller = Some 200
   \<and> producer_sb \<lparr>producer_sb = 200\<rparr> \<noteq> 100
   \<and> max_produced (ex_detector 8) = 12 \<and> block_count (ex_detector 8) = 8
   \<and> block_count (fst (on_block_recv ex_controller 5 77 \<lparr>producer_sb = 200\<rparr> (ex_detector 8))) = 1
   \<and> forks (the_producer 100 (fst (on_block_recv ex_controller 5 77 \<lparr>producer_sb = 200\<rparr> (ex_detector 8))))
       = [\<lparr>from_link = 5, fork_base = 77, depth = 8, deficit = 4, overage = 0\<rparr>]"
  using handoff_deficit [of ex_controller 100 200 "\<lparr>producer_sb = 200\<rparr>" "ex_detector 8" 5 77]
  by (simp add: ex_controller_def ex_detector_def topology_plugin_impl_init_def the_producer_def
      topo_producer_init_def)

text \<open>
  C9. The record that a hand-off appends carries the running count as its depth next to the
  deficit: after 8 blocks against a quota of 12 both depth (8) and deficit (4) are set, and
  the report, which prints the first field that is not zero, shows the record as a fork of 8
  blocks and not as a deficit of 4.
\<close>

theorem deficit_record_has_depth:
  "forks (the_producer 100 (fst (on_block_recv ex_controller 5 77 \<lparr>producer_sb = 200\<rparr> (ex_detector 8))))
     = [\<lparr>from_link = 5, fork_base = 77, depth = 8, deficit = 4, overage = 0\<rparr>]
   \<and> report_symptom \<lparr>from_link = 5, fork_base = 77, depth = 8, deficit = 4, overage = 0\<rparr> = Fork_of 8"
  by (simp add: on_block_recv_def ex_controller_def ex_detector_def topology_plugin_impl_init_def
      record_deficit_def Let_def the_producer_def set_producer_def topo_producer_init_def
      fork_descriptor_init_def report_symptom_def)

section \<open>Properties of the routing engine\<close>

lemma the_node_nodes_at: "the_node P n (nodes_at P m s) = the_node P n s"
  by (simp add: the_node_def nodes_at_def split: option.splits)

lemma the_node_set_route_other: "n \<noteq> m \<Longrightarrow> the_node P n (set_route P m d r s) = the_node P n s"
  by (simp add: the_node_def set_route_def)

lemma the_node_set_route_same:
  "the_node P n (set_route P n d r s) = (the_node P n s)\<lparr>routes := (routes (the_node P n s))(d \<mapsto> r)\<rparr>"
  by (simp add: the_node_def set_route_def)

lemma graph_of_set_route: "graph_of P (set_route P n d r s) = graph_of P s"
proof -
  have "info (the_node P m (set_route P n d r s)) = info (the_node P m s)
        \<and> links_n (the_node P m (set_route P n d r s)) = links_n (the_node P m s)" for m
    by (cases "m = n") (simp_all add: the_node_set_route_other the_node_set_route_same)
  then show ?thesis by (simp add: graph_of_def set_route_def)
qed

lemma graph_of_nodes_at: "graph_of P (nodes_at P n s) = graph_of P s"
  by (simp add: graph_of_def the_node_nodes_at) (simp add: nodes_at_def split: option.splits)

lemma far_end_graph: "graph_of P s' = graph_of P s \<Longrightarrow> far_end P n l s' = far_end P n l s"
  by (auto simp add: graph_of_def far_end_def dest: fun_cong[where x = n])

lemma loop_absent:
  "links s lid = None \<Longrightarrow>
   find_route_loop P seen to from (lid # lids) best s = find_route_loop P seen to from lids best s"
  by (simp add: find_route_loop.simps)

lemma loop_direct:
  "links s lid = Some l \<Longrightarrow> far_end P from l s = to \<Longrightarrow>
   find_route_loop P seen to from (lid # lids) best s
     = (seen, set_route P from to \<lparr>length_r = 1, path = lid\<rparr> s, 1)"
  by (simp add: find_route_loop.simps far_end_def Let_def)

lemma loop_seen:
  "links s lid = Some l \<Longrightarrow> far_end P from l s \<noteq> to \<Longrightarrow> far_end P from l s \<in> seen \<Longrightarrow>
   find_route_loop P seen to from (lid # lids) best s = find_route_loop P seen to from lids best s"
  by (simp add: find_route_loop.simps far_end_def Let_def)

lemma loop_rec:
  "links s lid = Some l \<Longrightarrow> far_end P from l s = p \<Longrightarrow> p \<noteq> to \<Longrightarrow> p \<notin> seen \<Longrightarrow>
   find_route_i P (insert p seen) to p (nodes_at P p s) = (seen', s', res) \<Longrightarrow>
   find_route_loop P seen to from (lid # lids) best s
     = find_route_loop P seen' to from lids
         (if res = - 1 then best
          else if res + 1 <s length_r best \<or> length_r best <s 1
               then \<lparr>length_r = res + 1, path = lid\<rparr> else best) s'"
  by (simp add: find_route_loop.simps far_end_def Let_def)

lemma find_route_i_hit:
  "path (the_route (the_node P from s) to) \<noteq> 0 \<Longrightarrow>
   find_route_i P seen to from s
     = (seen, set_route P from to (the_route (the_node P from s) to) s,
        length_r (the_route (the_node P from s) to))"
  by (simp add: find_route_i.simps Let_def)

lemma find_route_i_miss:
  "path (the_route (the_node P from s) to) = 0 \<Longrightarrow>
   find_route_i P seen to from s
     = find_route_loop P seen to from (sorted_list_of_set (links_n (the_node P from s)))
         (the_route (the_node P from s) to)
         (set_route P from to (the_route (the_node P from s) to) s)"
  by (simp add: find_route_i.simps Let_def the_node_set_route_same)

lemma find_route_i_rel_aux:
  assumes rfl: "\<And>x. R x x" and trns: "\<And>x y z. R x y \<Longrightarrow> R y z \<Longrightarrow> R x z"
    and sr: "\<And>seen n d r s. R (seen, s) (seen, set_route P n d r s)"
    and na: "\<And>seen n s. R (seen, s) (insert n seen, nodes_at P n s)"
  shows "Pa = P \<Longrightarrow> R (seen, s) (fst (find_route_i Pa seen to from s),
                                   fst (snd (find_route_i Pa seen to from s)))"
    and "Pa = P \<Longrightarrow> R (seen, s) (fst (find_route_loop Pa seen to from lids best s),
                                   fst (snd (find_route_loop Pa seen to from lids best s)))"
proof (induction Pa seen to "from" s and Pa seen to "from" lids best s rule: find_route_i_find_route_loop.induct)
  case (1 Pa seen to frm s)
  show ?case
  proof (cases "path (the_route (the_node Pa frm s) to) = 0")
    case True
    from 1(1)[OF refl refl _ 1(2)] True
    have "R (seen, set_route Pa frm to (the_route (the_node Pa frm s) to) s)
            (fst (find_route_i Pa seen to frm s), fst (snd (find_route_i Pa seen to frm s)))"
      by (simp add: find_route_i.simps[of Pa seen to frm s] Let_def)
    with sr[of seen s frm to] 1(2) show ?thesis by (blast intro: trns)
  next
    case False
    then show ?thesis using sr 1(2) by (simp add: find_route_i_hit)
  qed
next
  case (2 Pa seen to frm best s)
  then show ?case by (simp add: find_route_loop.simps sr)
next
  case (3 Pa seen to frm lid lids best s)
  note P = \<open>Pa = P\<close>
  show ?case
  proof (cases "links s lid")
    case None
    with 3(1) P show ?thesis by (simp add: loop_absent)
  next
    case (Some l)
    define p where "p = (if active_ld (info_l l) = my_id (info (the_node Pa frm s))
                      then passive_ld (info_l l) else active_ld (info_l l))"
    then have fe: "far_end Pa frm l s = p" by (simp add: far_end_def)
    consider (direct) "p = to" | (seen) "p \<noteq> to" "p \<in> seen" | (rec) "p \<noteq> to" "p \<notin> seen"
      by blast
    then show ?thesis
    proof cases
      case direct
      with Some fe P show ?thesis by (simp add: loop_direct sr)
    next
      case seen
      with Some fe 3(2)[OF Some p_def] P show ?thesis by (simp add: loop_seen)
    next
      case rec
      obtain seen' s' res where r: "find_route_i Pa (insert p seen) to p (nodes_at Pa p s) = (seen', s', res)"
        by (metis prod_cases3)
      from 3(3)[OF Some p_def rec P] r have a: "R (insert p seen, nodes_at Pa p s) (seen', s')"
        by simp
      from 3(4)[OF Some p_def rec r[symmetric] refl P]
      have b: "R (seen', s')
         (fst (find_route_loop Pa seen' to frm lids
                 (if res = - 1 then best
                  else if res + 1 <s length_r best \<or> length_r best <s 1
                       then \<lparr>length_r = res + 1, path = lid\<rparr> else best) s'),
          fst (snd (find_route_loop Pa seen' to frm lids
                 (if res = - 1 then best
                  else if res + 1 <s length_r best \<or> length_r best <s 1
                       then \<lparr>length_r = res + 1, path = lid\<rparr> else best) s')))" .
      from na[of seen s p] P have c: "R (seen, s) (insert p seen, nodes_at Pa p s)" by simp
      show ?thesis
        unfolding loop_rec[OF Some fe rec r] using a b c by (blast intro: trns)
    qed
  qed
qed

lemma find_route_i_invariant:
  assumes sr: "\<And>n d r s. Q (set_route P n d r s) = Q s" and na: "\<And>n s. Q (nodes_at P n s) = Q s"
  shows "Q (fst (snd (find_route_i P seen to from s))) = Q s"
    and "Q (fst (snd (find_route_loop P seen to from lids best s))) = Q s"
proof -
  let ?R = "\<lambda>x y. Q (snd y) = Q (snd x)"
  have "?R (seen, s) (fst (find_route_i P seen to from s), fst (snd (find_route_i P seen to from s)))"
    by (rule find_route_i_rel_aux(1)[where R = ?R and P = P]) (simp_all add: sr na)
  then show "Q (fst (snd (find_route_i P seen to from s))) = Q s" by simp
  have "?R (seen, s) (fst (find_route_loop P seen to from lids best s),
                      fst (snd (find_route_loop P seen to from lids best s)))"
    by (rule find_route_i_rel_aux(2)[where R = ?R and P = P]) (simp_all add: sr na)
  then show "Q (fst (snd (find_route_loop P seen to from lids best s))) = Q s" by simp
qed

lemma find_route_i_graph:
  "graph_of P (fst (snd (find_route_i P seen to from s))) = graph_of P s"
  "graph_of P (fst (snd (find_route_loop P seen to from lids best s))) = graph_of P s"
  by (rule find_route_i_invariant; simp add: graph_of_set_route graph_of_nodes_at)+

lemma find_route_i_links:
  "links (fst (snd (find_route_i P seen to from s))) = links s"
  "links (fst (snd (find_route_loop P seen to from lids best s))) = links s"
  by (rule find_route_i_invariant; simp add: set_route_def nodes_at_def split: option.splits)+

lemma find_route_i_seen:
  "seen \<subseteq> fst (find_route_i P seen to from s)"
  "seen \<subseteq> fst (find_route_loop P seen to from lids best s)"
proof -
  let ?R = "\<lambda>x y. fst x \<subseteq> fst (y :: node_id set \<times> 'a topology_plugin_impl)"
  have "?R (seen, s) (fst (find_route_i P seen to from s), fst (snd (find_route_i P seen to from s)))"
    by (rule find_route_i_rel_aux(1)[where R = ?R and P = P]) auto
  then show "seen \<subseteq> fst (find_route_i P seen to from s)" by simp
  have "?R (seen, s) (fst (find_route_loop P seen to from lids best s),
                      fst (snd (find_route_loop P seen to from lids best s)))"
    by (rule find_route_i_rel_aux(2)[where R = ?R and P = P]) auto
  then show "seen \<subseteq> fst (find_route_loop P seen to from lids best s)" by simp
qed

lemma far_end_joins:
  "joins l a b \<Longrightarrow> my_id (info (the_node P a s)) = a \<Longrightarrow> far_end P a l s = b"
  "joins l a b \<Longrightarrow> my_id (info (the_node P b s)) = b \<Longrightarrow> far_end P b l s = a"
  by (auto simp add: joins_def far_end_def)

lemma sorted2:
  "a \<noteq> b \<Longrightarrow> sorted_list_of_set {a, b :: 64 word} = (if a < b then [a, b] else [b, a])"
  by (auto simp add: sorted_list_of_set_insert_remove insort_is_Cons not_less)

lemma sorted2_lt: "a < b \<Longrightarrow> sorted_list_of_set {a, b :: 64 word} = [a, b]"
  using sorted2[of a b] by auto

lemma sorted2_gt: "b < a \<Longrightarrow> sorted_list_of_set {a, b :: 64 word} = [b, a]"
  using sorted2[of a b] by auto

lemma the_route_init: "routes nd to = None \<Longrightarrow> the_route nd to = route_descriptor_init"
  by (simp add: the_route_def)

lemma route_after_set: "routes (the_node P n (set_route P n d r s)) d = Some r"
  by (simp add: the_node_set_route_same)

text \<open>A node with the link to the target and a link back to a visited node.\<close>

lemma last_hop:
  assumes miss: "path (the_route (the_node P C s) D) = 0"
    and ls: "links_n (the_node P C s) = {bc, cd}" and ne: "bc \<noteq> cd"
    and lbc: "links s bc = Some lbc" and lcd: "links s cd = Some lcd"
    and fbc: "far_end P C lbc s = B" and fcd: "far_end P C lcd s = D"
    and B: "B \<in> seen" "B \<noteq> D"
  shows "snd (snd (find_route_i P seen D C s)) = 1"
proof -
  let ?s1 = "set_route P C D (the_route (the_node P C s) D) s"
  have g: "graph_of P ?s1 = graph_of P s" by (rule graph_of_set_route)
  have l1: "links ?s1 bc = Some lbc" "links ?s1 cd = Some lcd"
    using lbc lcd by (simp_all add: set_route_def)
  have f1: "far_end P C lbc ?s1 = B" "far_end P C lcd ?s1 = D"
    using fbc fcd far_end_graph[OF g] by simp_all
  show ?thesis
  proof (cases "bc < cd")
    case True
    then have sl: "sorted_list_of_set {bc, cd} = [bc, cd]" by (rule sorted2_lt)
    show ?thesis
      unfolding find_route_i_miss[OF miss] ls sl
      using B l1 f1 by (simp add: loop_seen loop_direct)
  next
    case False
    with ne have "cd < bc" by auto
    then have sl: "sorted_list_of_set {bc, cd} = [cd, bc]" by (rule sorted2_gt)
    show ?thesis
      unfolding find_route_i_miss[OF miss] ls sl
      using B l1 f1 by (simp add: loop_direct)
  qed
qed

lemma links_set_route: "links (set_route P n d r s) = links s"
  by (simp add: set_route_def)

lemma links_nodes_at: "links (nodes_at P n s) = links s"
  by (simp add: nodes_at_def split: option.splits)

lemma minus_one_sless_one: "(- 1 :: 16 word) <s 1"
  by (simp add: word_sless_alt)

lemma init_worse: "length_r route_descriptor_init <s 1" "length_r route_descriptor_init = - 1"
  "path route_descriptor_init = 0"
  by (simp_all add: route_descriptor_init_def word_sless_alt)

text \<open>A node with a link back to a visited node and a link onwards to a node from which the
  target is one hop away.\<close>

lemma middle_hop:
  assumes rB: "routes (the_node P B s) D = None" and rC: "routes (the_node P C s) D = None"
    and lsB: "links_n (the_node P B s) = {ab, bc}" and lsC: "links_n (the_node P C s) = {bc, cd}"
    and ne: "ab \<noteq> bc" "bc \<noteq> cd"
    and l: "links s ab = Some lab" "links s bc = Some lbc" "links s cd = Some lcd"
    and f: "far_end P B lab s = A" "far_end P B lbc s = C" "far_end P C lbc s = B" "far_end P C lcd s = D"
    and sn: "A \<in> seen" "B \<in> seen" "C \<notin> seen" and d: "A \<noteq> D" "B \<noteq> D" "C \<noteq> D" "B \<noteq> C"
  shows "snd (snd (find_route_i P seen D B s)) = 2"
proof -
  let ?s1 = "set_route P B D route_descriptor_init s"
  let ?s2 = "nodes_at P C ?s1"
  have miss: "path (the_route (the_node P B s) D) = 0"
    using rB by (simp add: the_route_init init_worse)
  have tr: "the_route (the_node P B s) D = route_descriptor_init"
    using rB by (rule the_route_init)
  have g1: "graph_of P ?s1 = graph_of P s" by (rule graph_of_set_route)
  have g2: "graph_of P ?s2 = graph_of P s" by (simp add: graph_of_nodes_at g1)
  have l1: "links ?s1 ab = Some lab" "links ?s1 bc = Some lbc"
    using l by (simp_all add: links_set_route)
  have f1: "far_end P B lab ?s1 = A" "far_end P B lbc ?s1 = C"
    using f far_end_graph[OF g1] by simp_all
  obtain seen' s' res where r: "find_route_i P (insert C seen) D C ?s2 = (seen', s', res)"
    by (metis prod_cases3)
  have nC: "the_node P C ?s2 = the_node P C s"
    using d by (simp add: the_node_nodes_at the_node_set_route_other)
  have "snd (snd (find_route_i P (insert C seen) D C ?s2)) = 1"
  proof (rule last_hop[where bc = bc and cd = cd and lbc = lbc and lcd = lcd and B = B])
    show "path (the_route (the_node P C ?s2) D) = 0"
      using rC by (simp add: nC the_route_init init_worse)
    show "links_n (the_node P C ?s2) = {bc, cd}" using lsC by (simp add: nC)
    show "bc \<noteq> cd" by fact
    show "links ?s2 bc = Some lbc" "links ?s2 cd = Some lcd"
      using l by (simp_all add: links_nodes_at links_set_route)
    show "far_end P C lbc ?s2 = B" "far_end P C lcd ?s2 = D"
      using f far_end_graph[OF g2] by simp_all
    show "B \<in> insert C seen" "B \<noteq> D" using sn d by simp_all
  qed
  with r have res: "res = 1" by simp
  have seen': "A \<in> seen'"
    using find_route_i_seen(1)[of "insert C seen" P D C ?s2] r sn by auto
  have ls': "links s' ab = Some lab"
    using find_route_i_links(1)[of P "insert C seen" D C ?s2] r l
    by (simp add: links_nodes_at links_set_route)
  have g': "graph_of P s' = graph_of P s"
    using find_route_i_graph(1)[of P "insert C seen" D C ?s2] r g2 by simp
  have f': "far_end P B lab s' = A"
    using f far_end_graph[OF g'] by simp
  have step: "find_route_loop P seen D B (bc # lids) route_descriptor_init ?s1
                = find_route_loop P seen' D B lids \<lparr>length_r = 2, path = bc\<rparr> s'" for lids
    using loop_rec[OF l1(2) f1(2) d(3) sn(3) r] by (simp add: res init_worse minus_one_sless_one)
  show ?thesis
  proof (cases "ab < bc")
    case True
    then have sl: "sorted_list_of_set {ab, bc} = [ab, bc]" by (rule sorted2_lt)
    show ?thesis
      unfolding find_route_i_miss[OF miss] lsB sl tr
      using sn d l1 f1 by (simp add: loop_seen step find_route_loop.simps(1))
  next
    case False
    with ne have "bc < ab" by auto
    then have sl: "sorted_list_of_set {ab, bc} = [bc, ab]" by (rule sorted2_gt)
    show ?thesis
      unfolding find_route_i_miss[OF miss] lsB sl tr step
      using seen' d ls' f' by (simp add: loop_seen find_route_loop.simps(1))
  qed
qed

lemma the_link_Some: "lid \<in> dom (links s) \<Longrightarrow> links s lid = Some (the_link P lid s)"
  by (auto simp add: the_link_def)

lemma chain_route_aux:
  assumes c: "chain_graph P s A B C D ab bc cd"
  shows "find_route P A D s
           = (3, set_route P A D \<lparr>length_r = 3, path = ab\<rparr>
                   (fst (snd (find_route_i P {A, B} D B
                      (nodes_at P B (set_route P A D route_descriptor_init s))))))"
proof -
  let ?lab = "the_link P ab s" and ?lbc = "the_link P bc s" and ?lcd = "the_link P cd s"
  let ?s1 = "set_route P A D route_descriptor_init s"
  let ?s2 = "nodes_at P B ?s1"
  from c have d: "A \<noteq> B" "A \<noteq> C" "A \<noteq> D" "B \<noteq> C" "B \<noteq> D" "C \<noteq> D"
    and dl: "ab \<noteq> bc" "ab \<noteq> cd" "bc \<noteq> cd"
    and pres: "nodes s A \<noteq> None" "nodes s D \<noteq> None"
    and l: "links s ab = Some ?lab" "links s bc = Some ?lbc" "links s cd = Some ?lcd"
    and fA: "fresh_node (the_node P A s) A {ab}" and fB: "fresh_node (the_node P B s) B {ab, bc}"
    and fC: "fresh_node (the_node P C s) C {bc, cd}"
    and j: "joins ?lab A B" "joins ?lbc B C" "joins ?lcd C D"
    by (auto simp add: chain_graph_def the_link_Some)
  have g1: "graph_of P ?s1 = graph_of P s" by (rule graph_of_set_route)
  have g2: "graph_of P ?s2 = graph_of P s" by (simp add: graph_of_nodes_at g1)
  have fe: "far_end P A ?lab s = B" "far_end P B ?lab s = A" "far_end P B ?lbc s = C"
    "far_end P C ?lbc s = B" "far_end P C ?lcd s = D"
    using j fA fB fC by (simp_all add: far_end_joins fresh_node_def)
  have nB: "the_node P B ?s2 = the_node P B s" and nC: "the_node P C ?s2 = the_node P C s"
    using d by (simp_all add: the_node_nodes_at the_node_set_route_other)
  obtain seen' s' res where r: "find_route_i P (insert B {A}) D B ?s2 = (seen', s', res)"
    by (metis prod_cases3)
  have "snd (snd (find_route_i P (insert B {A}) D B ?s2)) = 2"
  proof (rule middle_hop[where ab = ab and bc = bc and cd = cd and A = A and C = C
        and lab = ?lab and lbc = ?lbc and lcd = ?lcd])
    show "routes (the_node P B ?s2) D = None" "routes (the_node P C ?s2) D = None"
      using fB fC by (simp_all add: nB nC fresh_node_def)
    show "links_n (the_node P B ?s2) = {ab, bc}" "links_n (the_node P C ?s2) = {bc, cd}"
      using fB fC by (simp_all add: nB nC fresh_node_def)
    show "ab \<noteq> bc" "bc \<noteq> cd" by fact+
    show "links ?s2 ab = Some ?lab" "links ?s2 bc = Some ?lbc" "links ?s2 cd = Some ?lcd"
      using l by (simp_all add: links_nodes_at links_set_route)
    show "far_end P B ?lab ?s2 = A" "far_end P B ?lbc ?s2 = C" "far_end P C ?lbc ?s2 = B"
      "far_end P C ?lcd ?s2 = D"
      using fe far_end_graph[OF g2] by simp_all
    show "A \<in> insert B {A}" "B \<in> insert B {A}" "C \<notin> insert B {A}" using d by auto
    show "A \<noteq> D" "B \<noteq> D" "C \<noteq> D" "B \<noteq> C" by fact+
  qed
  with r have res: "res = 2" by simp
  have miss: "path (the_route (the_node P A s) D) = 0"
    and tr: "the_route (the_node P A s) D = route_descriptor_init"
    using fA by (simp_all add: the_route_init init_worse fresh_node_def)
  have lsA: "sorted_list_of_set (links_n (the_node P A s)) = [ab]"
    using fA by (simp add: fresh_node_def)
  have l1: "links ?s1 ab = Some ?lab" using l by (simp add: links_set_route)
  have f1: "far_end P A ?lab ?s1 = B" using fe far_end_graph[OF g1] by simp
  have "find_route_i P {A} D A s = (seen', set_route P A D \<lparr>length_r = 3, path = ab\<rparr> s', 3)"
    unfolding find_route_i_miss[OF miss] lsA tr
    using loop_rec[OF l1 f1 d(5) _ r, of "[]" route_descriptor_init] d
    by (simp add: res init_worse minus_one_sless_one find_route_loop.simps(1))
  moreover have "s' = fst (snd (find_route_i P {A, B} D B ?s2))"
    using r by (simp add: insert_commute)
  ultimately show ?thesis
    using pres d by (simp add: find_route_def)
qed

lemma find_route_self: "nodes s X \<noteq> None \<Longrightarrow> fst (find_route P X X s) = 0"
  by (simp add: find_route_def Let_def)

text \<open>
  C4. In a graph that holds exactly the chain A - B - C - D, with no route cached,
  \<^verbatim>\<open>find_route(A, D)\<close> returns 3 and leaves the entry (3, link(A,B)) for D in the route
  cache of A, whatever the order of the link ids and the direction of the links. And in every
  graph, a route from a node of the graph to itself has length 0.
\<close>

theorem find_route_chain:
  "(chain_graph P s A B C D ab bc cd \<longrightarrow>
      fst (find_route P A D s) = 3
      \<and> routes (the_node P A (snd (find_route P A D s))) D = Some \<lparr>length_r = 3, path = ab\<rparr>)
   \<and> (nodes t X \<noteq> None \<longrightarrow> fst (find_route P X X t) = 0)"
  by (simp add: chain_route_aux find_route_self route_after_set)

lemma ex_chain_graph: "chain_graph ex_platform ex_chain 1 2 3 4 12 23 34"
  by (simp add: chain_graph_def ex_chain_def fresh_node_def joins_def the_node_def the_link_def
      ex_node_def ex_link_def topo_node_of_def topo_link_of_def insert_commute)

theorem find_route_chain_witness:
  "chain_graph ex_platform ex_chain 1 2 3 4 12 23 34
   \<and> fst (find_route ex_platform 1 4 ex_chain) = 3
   \<and> routes (the_node ex_platform 1 (snd (find_route ex_platform 1 4 ex_chain))) 4
        = Some \<lparr>length_r = 3, path = 12\<rparr>
   \<and> nodes ex_chain 2 \<noteq> None \<and> fst (find_route ex_platform 2 2 ex_chain) = 0"
  using find_route_chain [of ex_platform ex_chain 1 2 3 4 12 23 34 ex_chain 2] ex_chain_graph
  by (simp add: ex_chain_def)

section \<open>Properties of sequences of operations\<close>

lemma dropped_same_links: "links s' = links s \<Longrightarrow> dropped lid 0 s s'"
  by (auto simp add: dropped_def closures_of_def)

lemma dropped_trans: "dropped lid n s s' \<Longrightarrow> dropped lid m s' s'' \<Longrightarrow> dropped lid (n + m) s s''"
  by (auto simp add: dropped_def)

lemma links_register_link: "links (register_link n lid s) = links s"
  by (simp add: register_link_def split: option.splits)

lemma dropped_add_node: "dropped lid 0 s (snd (add_node P n s))"
  by (rule dropped_same_links) (simp add: add_node_def Let_def)

lemma dropped_drop_node: "dropped lid 0 s (drop_node n s)"
  by (rule dropped_same_links) (simp add: drop_node_def)

lemma dropped_add_link: "dropped lid 0 s (snd (add_link P l s))"
  by (auto simp add: dropped_def closures_of_def add_link_def Let_def links_register_link
      topo_link_of_def)

lemma dropped_drop_link: "dropped lid (if k = lid then 1 else 0) s (drop_link P k s)"
  by (auto simp add: dropped_def closures_of_def drop_link_def the_link_def topo_link_init_def
      split: option.splits)

lemma dropped_fold:
  assumes "\<And>x s. dropped lid (c x) s (f x s)"
  shows "dropped lid (sum_list (map c xs)) s (fold f xs s)"
proof (induction xs arbitrary: s)
  case Nil
  show ?case by (simp add: dropped_same_links)
next
  case (Cons x xs)
  from dropped_trans[OF assms[of x s] Cons[of "f x s"]] show ?case by simp
qed

lemma sum_list_count: "sum_list (map (\<lambda>k. if k = lid then 1 else 0) xs) = count_list xs lid"
  by (induction xs) auto

lemma dropped_update_map: "dropped lid (count_list (drop_links mu) lid) s (update_map P mu s)"
proof -
  let ?s1 = "fold (\<lambda>an s. snd (add_node P an s)) (add_nodes mu) s"
  let ?s2 = "fold (\<lambda>al s. snd (add_link P al s)) (add_links mu) ?s1"
  let ?s3 = "fold drop_node (drop_nodes mu) ?s2"
  have 1: "dropped lid 0 s ?s1"
    using dropped_fold[of lid "\<lambda>_. 0" "\<lambda>an s. snd (add_node P an s)" "add_nodes mu" s]
    by (simp add: dropped_add_node)
  have 2: "dropped lid 0 ?s1 ?s2"
    using dropped_fold[of lid "\<lambda>_. 0" "\<lambda>al s. snd (add_link P al s)" "add_links mu" ?s1]
    by (simp add: dropped_add_link)
  have 3: "dropped lid 0 ?s2 ?s3"
    using dropped_fold[of lid "\<lambda>_. 0" drop_node "drop_nodes mu" ?s2]
    by (simp add: dropped_drop_node)
  have 4: "dropped lid (count_list (drop_links mu) lid) ?s3 (fold (drop_link P) (drop_links mu) ?s3)"
    using dropped_fold[of lid "\<lambda>k. if k = lid then 1 else 0" "drop_link P" "drop_links mu" ?s3]
    by (simp add: dropped_drop_link sum_list_count)
  from dropped_trans[OF dropped_trans[OF dropped_trans[OF 1 2] 3] 4]
  show ?thesis by (simp add: update_map_def Let_def)
qed

lemma links_find_route: "links (snd (find_route P from to s)) = links s"
proof (cases "find_route_i P {from} to from s")
  case (fields seen' s' l)
  with find_route_i_links(1)[of P "{from}" to "from" s] show ?thesis
    by (simp add: find_route_def Let_def links_set_route)
qed

lemma links_find_route_eq: "find_route P from to s = (l, s') \<Longrightarrow> links s' = links s"
  using links_find_route[of P "from" to s] by simp

lemma links_on_block_recv: "links (fst (on_block_recv cc src blk_id sb s)) = links s"
  by (simp add: on_block_recv_def record_deficit_def set_producer_def Let_def split: option.splits)

lemma dropped_update_samples: "dropped lid 0 s (update_samples P ls flip s)"
  by (auto simp add: dropped_def closures_of_def update_samples_def split: option.splits)

lemma dropped_links_at: "dropped lid 0 s (links_at P li s)"
  by (auto simp add: dropped_def closures_of_def links_at_def topo_link_init_def split: option.splits)

lemma links_forward:
  "links (snd (forward_topology_message P tm li s)) = links (links_at P li s)"
  by (auto simp add: forward_topology_message_def Let_def links_set_route links_nodes_at
      split: prod.splits dest!: links_find_route_eq)

lemma dropped_forward: "dropped lid 0 s (snd (forward_topology_message P tm li s))"
  using dropped_trans[OF dropped_links_at[of lid s P li] dropped_same_links[OF links_forward]]
  by simp

lemma dropped_apply_op: "dropped lid (drop_calls lid x) s (apply_op P x s)"
  by (cases x)
    (simp_all add: dropped_add_node dropped_drop_node dropped_add_link dropped_drop_link
      dropped_update_map dropped_update_samples dropped_forward dropped_same_links
      links_find_route links_on_block_recv)

lemma dropped_run_ops: "dropped lid (drops_observed lid ops) s (run_ops P ops s)"
  unfolding drops_observed_def run_ops_def by (rule dropped_fold) (rule dropped_apply_op)

lemma closures_of_init: "closures_of lid (topology_plugin_impl_init n) = 0"
  by (simp add: closures_of_def topology_plugin_impl_init_def)

text \<open>
  C7. Over every sequence of operations and from every state, a link record that exists is
  never removed, and the closure counter of a link id grows by the number of
  \<^verbatim>\<open>drop_link\<close> calls made for it, in 32-bit arithmetic. Starting from the constructed
  plugin the counter is that number modulo \<open>2 ^ 32\<close>, and the number itself as long as it is
  below \<open>2 ^ 32\<close>.
\<close>

theorem closure_accounting:
  "(links s lid \<noteq> None \<longrightarrow> links (run_ops P ops s) lid \<noteq> None)
   \<and> closures_of lid (run_ops P ops s) = closures_of lid s + of_nat (drops_observed lid ops)
   \<and> unat (closures_of lid (run_ops P ops (topology_plugin_impl_init n)))
        = drops_observed lid ops mod 2 ^ 32
   \<and> (drops_observed lid ops < 2 ^ 32 \<longrightarrow>
        unat (closures_of lid (run_ops P ops (topology_plugin_impl_init n))) = drops_observed lid ops)"
  using dropped_run_ops[of lid ops s P] dropped_run_ops[of lid ops "topology_plugin_impl_init n" P]
  by (auto simp add: dropped_def closures_of_init unat_of_nat)

lemma drops_replicate: "drops_observed lid (replicate n (Drop_link lid)) = n"
  by (induction n) (simp_all add: drops_observed_def)

text \<open>
  The counter is a \<^verbatim>\<open>uint32_t\<close>: after \<open>2 ^ 32\<close> calls of \<^verbatim>\<open>drop_link(7)\<close> it is 0 again.
\<close>

theorem closure_counter_wraps:
  "drops_observed 7 (replicate 4294967296 (Drop_link 7 :: unit operation)) = 4294967296
   \<and> closures_of 7 (run_ops ex_platform (replicate 4294967296 (Drop_link 7)) (topology_plugin_impl_init 1)) = 0"
  using dropped_run_ops[of 7 "replicate 4294967296 (Drop_link 7)" "topology_plugin_impl_init 1" ex_platform]
  by (simp add: drops_replicate dropped_def closures_of_init)

theorem closure_accounting_witness:
  "links (drop_link ex_platform 7 (topology_plugin_impl_init 1)) 7 \<noteq> None
   \<and> links (run_ops ex_platform [Drop_link 7, Drop_node 3, Drop_link 7] (drop_link ex_platform 7 (topology_plugin_impl_init 1))) 7 \<noteq> None
   \<and> drops_observed 7 [Drop_link 7, Drop_node 3, Drop_link 7 :: unit operation] < 2 ^ 32
   \<and> unat (closures_of 7 (run_ops ex_platform [Drop_link 7, Drop_node 3, Drop_link 7] (topology_plugin_impl_init 1))) = 2"
  using closure_accounting[of "drop_link ex_platform 7 (topology_plugin_impl_init 1)" 7 ex_platform
      "[Drop_link 7, Drop_node 3, Drop_link 7]" 1]
  by (simp add: drops_observed_def drop_link_def)

section \<open>Applying a map delta twice\<close>

lemma nodes_add_node:
  "nodes (snd (add_node P n s)) k
     = (if nodes s k = None \<and> k = node_key P n
        then Some (topo_node_of P (if my_id n = 0 then n\<lparr>my_id := gen_id_node P n\<rparr> else n))
        else nodes s k)"
  by (auto simp add: add_node_def node_key_def Let_def)

lemma add_nodes_keep:
  "nodes s k = Some nd \<Longrightarrow> nodes (fold (\<lambda>an s. snd (add_node P an s)) ans s) k = Some nd"
  by (induction ans arbitrary: s) (simp_all add: nodes_add_node)

lemma add_nodes_dom:
  "dom (nodes (fold (\<lambda>an s. snd (add_node P an s)) ans s)) = dom (nodes s) \<union> node_key P ` set ans"
proof (induction ans arbitrary: s)
  case Nil
  show ?case by simp
next
  case (Cons a ans)
  have "dom (nodes (snd (add_node P a s))) = insert (node_key P a) (dom (nodes s))"
    by (auto simp add: nodes_add_node domIff split: if_splits)
  with Cons[of "snd (add_node P a s)"] show ?case by auto
qed

lemma nodes_register_link:
  "nodes (register_link n lid s) k
     = (if k = n then map_option (\<lambda>nd. nd\<lparr>links_n := insert lid (links_n nd)\<rparr>) (nodes s k)
        else nodes s k)"
  by (auto simp add: register_link_def insert_absorb split: option.splits)

lemma nodes_add_link:
  "nodes (snd (add_link P l s)) k
     = map_option (\<lambda>nd. nd\<lparr>links_n := links_n nd \<union> links_of_node P [l] k\<rparr>) (nodes s k)"
  by (cases "nodes s k")
    (auto simp add: add_link_def Let_def nodes_register_link links_of_node_def gen_id_link_def
      insert_commute)

lemma links_of_node_Cons:
  "links_of_node P (l # al) k = links_of_node P [l] k \<union> links_of_node P al k"
  by (auto simp add: links_of_node_def)

lemma nodes_add_links:
  "nodes (fold (\<lambda>al s. snd (add_link P al s)) al s) k
     = map_option (\<lambda>nd. nd\<lparr>links_n := links_n nd \<union> links_of_node P al k\<rparr>) (nodes s k)"
proof (induction al arbitrary: s)
  case Nil
  show ?case by (simp add: links_of_node_def option.map_ident)
next
  case (Cons l al)
  show ?case
    by (simp add: Cons nodes_add_link links_of_node_Cons[of P l al] option.map_comp comp_def
        Un_assoc)
qed

lemma nodes_drop_nodes: "nodes (fold drop_node ds s) k = (if k \<in> set ds then None else nodes s k)"
  by (induction ds arbitrary: s) (simp_all add: drop_node_def)

lemma nodes_drop_links: "nodes (fold (drop_link P) xs s) = nodes s"
  by (induction xs arbitrary: s) (simp_all add: drop_link_nodes)

lemma nodes_update_map:
  "nodes (update_map P mu s) k
     = (if k \<in> set (drop_nodes mu) then None
        else map_option (\<lambda>nd. nd\<lparr>links_n := links_n nd \<union> links_of_node P (add_links mu) k\<rparr>)
               (nodes (fold (\<lambda>an s. snd (add_node P an s)) (add_nodes mu) s) k))"
  by (simp add: update_map_def Let_def nodes_drop_links nodes_drop_nodes nodes_add_links)

lemma update_map_nodes_twice:
  "nodes (update_map P mu (update_map P mu s)) = nodes (update_map P mu s)"
proof
  fix k
  let ?A = "\<lambda>s. fold (\<lambda>an s. snd (add_node P an s)) (add_nodes mu) s"
  let ?u = "update_map P mu"
  show "nodes (?u (?u s)) k = nodes (?u s) k"
  proof (cases "k \<in> set (drop_nodes mu)")
    case True
    then show ?thesis by (simp add: nodes_update_map)
  next
    case False
    show ?thesis
    proof (cases "nodes (?u s) k")
      case None
      with False have "nodes (?A s) k = None" by (simp add: nodes_update_map)
      then have "k \<notin> node_key P ` set (add_nodes mu)"
        using add_nodes_dom[of P "add_nodes mu" s] by (auto simp add: domIff)
      with None have "nodes (?A (?u s)) k = None"
        using add_nodes_dom[of P "add_nodes mu" "?u s"] by (auto simp add: domIff)
      with False None show ?thesis by (simp add: nodes_update_map[of P mu "?u s"])
    next
      case (Some v)
      then have A: "nodes (?A (?u s)) k = Some v" by (rule add_nodes_keep)
      from Some False obtain nd where
        v: "v = nd\<lparr>links_n := links_n nd \<union> links_of_node P (add_links mu) k\<rparr>"
        by (auto simp add: nodes_update_map)
      from False A have "nodes (?u (?u s)) k
          = Some (v\<lparr>links_n := links_n v \<union> links_of_node P (add_links mu) k\<rparr>)"
        by (simp add: nodes_update_map[of P mu "?u s"])
      also have "\<dots> = Some v" by (simp add: v)
      finally show ?thesis using Some by simp
    qed
  qed
qed

lemma links_add_nodes: "links (fold (\<lambda>an s. snd (add_node P an s)) ans s) = links s"
  by (induction ans arbitrary: s) (simp_all add: add_node_def Let_def)

lemma links_drop_nodes: "links (fold drop_node ds s) = links s"
  by (induction ds arbitrary: s) (simp_all add: drop_node_def)

lemma links_add_link:
  "links (snd (add_link P l s)) k
     = (if links s k = None \<and> k = gen_id_link P l
        then Some (topo_link_of P (l\<lparr>my_id_ld := gen_id_link P l\<rparr>)) else links s k)"
  by (auto simp add: add_link_def Let_def links_register_link)

lemma add_links_known:
  "gen_id_link P ` set al \<subseteq> dom (links s) \<Longrightarrow>
   links (fold (\<lambda>al s. snd (add_link P al s)) al s) = links s"
proof (induction al arbitrary: s)
  case Nil
  show ?case by simp
next
  case (Cons l al)
  have "links (snd (add_link P l s)) k = links s k" for k
    using Cons.prems by (auto simp add: links_add_link domIff)
  then have "links (snd (add_link P l s)) = links s" by (rule ext)
  with Cons show ?case by simp
qed

lemma add_links_dom:
  "dom (links (fold (\<lambda>al s. snd (add_link P al s)) al s)) = dom (links s) \<union> gen_id_link P ` set al"
proof (induction al arbitrary: s)
  case Nil
  show ?case by simp
next
  case (Cons l al)
  have "dom (links (snd (add_link P l s))) = insert (gen_id_link P l) (dom (links s))"
    by (auto simp add: links_add_link domIff split: if_splits)
  with Cons[of "snd (add_link P l s)"] show ?case by auto
qed

lemma links_drop_links:
  "links (fold (drop_link P) xs s) lid
     = (if lid \<in> set xs
        then Some ((the_link P lid s)\<lparr>closures := closures (the_link P lid s) + of_nat (count_list xs lid)\<rparr>)
        else links s lid)"
proof (induction xs arbitrary: s)
  case Nil
  show ?case by simp
next
  case (Cons x xs)
  have other: "x \<noteq> lid \<Longrightarrow> the_link P lid (drop_link P x s) = the_link P lid s"
    by (simp add: the_link_def drop_link_def)
  have same: "the_link P lid (drop_link P lid s)
                = (the_link P lid s)\<lparr>closures := closures (the_link P lid s) + 1\<rparr>"
    by (simp add: the_link_def drop_link_def)
  show ?case
  proof (cases "x = lid")
    case True
    then show ?thesis
      by (simp add: Cons same) (simp add: drop_link_def add.commute add.left_commute)
  next
    case False
    then show ?thesis by (simp add: Cons other drop_link_other)
  qed
qed

lemma dom_drop_links: "dom (links (fold (drop_link P) xs s)) = dom (links s) \<union> set xs"
  by (auto simp add: links_drop_links domIff split: if_splits)

lemma update_map_links_twice:
  "links (update_map P mu (update_map P mu s)) lid
     = map_option (\<lambda>l. l\<lparr>closures := closures l + of_nat (count_list (drop_links mu) lid)\<rparr>)
         (links (update_map P mu s) lid)"
proof -
  let ?A = "\<lambda>s. fold (\<lambda>an s. snd (add_node P an s)) (add_nodes mu) s"
  let ?L = "\<lambda>s. fold (\<lambda>al s. snd (add_link P al s)) (add_links mu) s"
  let ?N = "\<lambda>s. fold drop_node (drop_nodes mu) s"
  let ?D = "\<lambda>s. fold (drop_link P) (drop_links mu) s"
  let ?t = "update_map P mu s"
  have u: "update_map P mu s = ?D (?N (?L (?A s)))" for s
    by (simp add: update_map_def Let_def)
  have "gen_id_link P ` set (add_links mu) \<subseteq> dom (links ?t)"
    unfolding u by (simp add: dom_drop_links links_drop_nodes add_links_dom) blast
  then have "gen_id_link P ` set (add_links mu) \<subseteq> dom (links (?A ?t))"
    by (simp add: links_add_nodes)
  then have "links (?L (?A ?t)) = links ?t"
    by (simp add: add_links_known links_add_nodes)
  then have before: "links (?N (?L (?A ?t))) = links ?t"
    by (simp add: links_drop_nodes)
  then have tl: "the_link P lid (?N (?L (?A ?t))) = the_link P lid ?t"
    by (simp add: the_link_def)
  show ?thesis
  proof (cases "lid \<in> set (drop_links mu)")
    case True
    then have "lid \<in> dom (links ?t)" unfolding u by (simp add: dom_drop_links)
    then obtain l where l: "links ?t lid = Some l" by auto
    then have "the_link P lid ?t = l" by (simp add: the_link_def)
    with True l tl show ?thesis
      by (simp add: u[of ?t] links_drop_links)
  next
    case False
    then have "count_list (drop_links mu) lid = 0" by (simp add: count_list_0_iff)
    with False before show ?thesis
      by (simp add: u[of ?t] links_drop_links option.map_ident)
  qed
qed

text \<open>
  C3. A second application of the same map delta leaves the node table as the first left it
  and the link table with the same keys; every link record is as the first application left it
  but for the closure counter, which the dropped links of the delta raise once more. A delta
  that drops no link changes nothing when it is applied again.
\<close>

theorem update_map_twice:
  "nodes (update_map P mu (update_map P mu s)) = nodes (update_map P mu s)
   \<and> dom (links (update_map P mu (update_map P mu s))) = dom (links (update_map P mu s))
   \<and> links (update_map P mu (update_map P mu s)) lid
       = map_option (\<lambda>l. l\<lparr>closures := closures l + of_nat (count_list (drop_links mu) lid)\<rparr>)
           (links (update_map P mu s) lid)
   \<and> (drop_links mu = [] \<longrightarrow>
        links (update_map P mu (update_map P mu s)) = links (update_map P mu s))"
proof -
  have "dom (links (update_map P mu (update_map P mu s))) = dom (links (update_map P mu s))"
    by (auto simp add: update_map_links_twice domIff)
  moreover have "drop_links mu = [] \<longrightarrow>
        links (update_map P mu (update_map P mu s)) = links (update_map P mu s)"
    by (auto simp add: update_map_links_twice option.map_ident)
  ultimately show ?thesis
    by (simp add: update_map_nodes_twice update_map_links_twice)
qed

text \<open>
  A delta that drops link 7: the first application leaves the closure counter 1, the second
  makes it 2.
\<close>

theorem update_map_twice_counterexample:
  "closures_of 7 (update_map ex_platform ex_delta_drop (topology_plugin_impl_init 1)) = 1
   \<and> closures_of 7 (update_map ex_platform ex_delta_drop
                      (update_map ex_platform ex_delta_drop (topology_plugin_impl_init 1))) = 2"
  by (simp add: update_map_def ex_delta_drop_def closures_of_def drop_link_def the_link_def
      topo_link_init_def topology_plugin_impl_init_def)

theorem update_map_twice_witness:
  "drop_links ex_delta_add = []
   \<and> nodes (update_map ex_platform ex_delta_add (update_map ex_platform ex_delta_add (topology_plugin_impl_init 1)))
       = nodes (update_map ex_platform ex_delta_add (topology_plugin_impl_init 1))
   \<and> links (update_map ex_platform ex_delta_add (update_map ex_platform ex_delta_add (topology_plugin_impl_init 1)))
       = links (update_map ex_platform ex_delta_add (topology_plugin_impl_init 1))"
  using update_map_twice [of ex_platform ex_delta_add "topology_plugin_impl_init 1" 0]
  by (simp add: ex_delta_add_def)

section \<open>Properties of the gossip dispatcher\<close>







section \<open>Routes between nodes that are not connected\<close>


























end
